theory Spec2Isabelle
  imports Complex_Main "HOL-Library.Sublist" "HOL-Library.Multiset"
begin

section \<open>The chaos exporter: data\<close>

text \<open>
  The program is \<^verbatim>\<open>cmd/exporter/main.go\<close>. It keeps three fixed gauges and one gauge
  per chaos experiment in the default registry of the Prometheus client library, and a
  package-level list \<^verbatim>\<open>registeredResultMetrics\<close> of the experiment names it has
  registered. Gauge values are \<^verbatim>\<open>float64\<close>; the program only stores them and never
  computes with them, so they are modelled as reals.
\<close>

type_synonym float64 = real

text \<open>
  A \<^verbatim>\<open>GaugeVec\<close> object: the fully-qualified name of its descriptor and its children,
  one value per tuple of label values (\<^verbatim>\<open>WithLabelValues(...).Set(v)\<close>).
\<close>

record GaugeVec =
  fqName :: string
  children :: "string list \<rightharpoonup> float64"

text \<open>How the process ends when it ends: every exit and panic of the source is a value.\<close>

datatype error =
    Fatal string
  | Panic string
  | PanicInvalidMetricName string
  | PanicAlreadyRegistered string
  | PanicInconsistentCardinality nat nat
  | PanicInvalidLabelValue string
  | FlagExit

text \<open>The calls made to the registry, recorded in order (a log that observes the run).\<close>

datatype registry_call = CallUnregister string | CallMustRegister string

text \<open>
  The mutable state: the \<^verbatim>\<open>GaugeVec\<close> objects by address (the three package-level
  gauges are at addresses 0, 1 and 2; every \<^verbatim>\<open>NewGaugeVec\<close> of the loop takes the
  next address), the registry as a map from the fully-qualified name of a descriptor to
  the registered collector, the list \<^verbatim>\<open>registeredResultMetrics\<close>, and the log of
  registry calls.
\<close>

record state =
  gauges :: "nat \<Rightarrow> GaugeVec"
  allocated :: nat
  registry :: "string \<rightharpoonup> nat"
  registeredResultMetrics :: "string list"
  calls :: "registry_call list"

definition experimentsTotal :: nat where "experimentsTotal = 0"
definition passedExperiments :: nat where "passedExperiments = 1"
definition failedExperiments :: nat where "failedExperiments = 2"

section \<open>Library functions the program calls\<close>

text \<open>
  \<^verbatim>\<open>strings.Replace(s, old, new, n)\<close> for a non-empty \<^verbatim>\<open>old\<close>: the first \<^verbatim>\<open>n\<close>
  non-overlapping occurrences of \<^verbatim>\<open>old\<close>, from the left, are replaced by \<^verbatim>\<open>new\<close>;
  a negative \<^verbatim>\<open>n\<close> sets no limit. Strings are byte strings. (The program only calls it
  with the pattern \<^verbatim>\<open>"-"\<close>; the empty pattern, which Go handles rune by rune, has no
  equation.)
\<close>

fun Replace :: "string \<Rightarrow> string \<Rightarrow> string \<Rightarrow> int \<Rightarrow> string" where
  "Replace [] (a # old) new n = []"
| "Replace (c # s) (a # old) new n =
     (if n \<noteq> 0 \<and> prefix (a # old) (c # s)
      then new @ Replace (drop (length old) s) (a # old) new (n - 1)
      else c # Replace s (a # old) new n)"

text \<open>
  \<^verbatim>\<open>prometheus.BuildFQName\<close>, which \<^verbatim>\<open>NewGaugeVec\<close> applies to the namespace,
  subsystem and name of the options: an empty name gives the empty string.
\<close>

definition BuildFQName :: "string \<Rightarrow> string \<Rightarrow> string \<Rightarrow> string" where
  "BuildFQName namespace subsystem name =
     (if name = [] then []
      else if namespace \<noteq> [] \<and> subsystem \<noteq> [] then namespace @ ''_'' @ subsystem @ ''_'' @ name
      else if namespace \<noteq> [] then namespace @ ''_'' @ name
      else if subsystem \<noteq> [] then subsystem @ ''_'' @ name
      else name)"

text \<open>
  The metric names the library accepts, \<^verbatim>\<open>[a-zA-Z_:][a-zA-Z0-9_:]*\<close>: a descriptor
  with any other name carries an error, and registering it fails.
\<close>

definition isNameStart :: "char \<Rightarrow> bool" where
  "isNameStart b =
     (let n = (of_char b :: nat)
      in (97 \<le> n \<and> n \<le> 122) \<or> (65 \<le> n \<and> n \<le> 90) \<or> b = CHR ''_'' \<or> b = CHR '':'')"

definition isDigit :: "char \<Rightarrow> bool" where
  "isDigit b = (let n = (of_char b :: nat) in 48 \<le> n \<and> n \<le> 57)"

fun IsValidMetricName :: "string \<Rightarrow> bool" where
  "IsValidMetricName [] = False"
| "IsValidMetricName (b # bs) =
     (isNameStart b \<and> list_all (\<lambda>c. isNameStart c \<or> isDigit c) bs)"

text \<open>
  \<^verbatim>\<open>prometheus.NewGaugeVec\<close>: a new object with the descriptor's name and no children.
\<close>

definition NewGaugeVec :: "string \<Rightarrow> string \<Rightarrow> string \<Rightarrow> state \<Rightarrow> nat \<times> state" where
  "NewGaugeVec namespace subsystem name s =
     (allocated s,
      s\<lparr>gauges := (gauges s)(allocated s :=
            \<lparr>fqName = BuildFQName namespace subsystem name, children = Map.empty\<rparr>),
        allocated := Suc (allocated s)\<rparr>)"

text \<open>
  \<^verbatim>\<open>prometheus.MustRegister(c)\<close>: panics when the descriptor of \<^verbatim>\<open>c\<close> is invalid or
  when a collector with the same descriptor is registered already; registers \<^verbatim>\<open>c\<close>
  otherwise. A panic ends the process, and the state it leaves is returned with it.
\<close>

definition MustRegister :: "nat \<Rightarrow> state \<Rightarrow> (error \<times> state) + state" where
  "MustRegister c s =
     (let n = fqName (gauges s c);
          s' = s\<lparr>calls := calls s @ [CallMustRegister n]\<rparr>
      in if \<not> IsValidMetricName n then Inl (PanicInvalidMetricName n, s')
         else if registry s n \<noteq> None then Inl (PanicAlreadyRegistered n, s')
         else Inr (s'\<lparr>registry := (registry s)(n \<mapsto> c)\<rparr>))"

text \<open>
  \<^verbatim>\<open>prometheus.Unregister(c)\<close>: removes the registered collector whose descriptor
  equals that of \<^verbatim>\<open>c\<close>, if there is one (the program ignores the returned flag).
\<close>

definition Unregister :: "nat \<Rightarrow> state \<Rightarrow> state" where
  "Unregister c s =
     (let n = fqName (gauges s c)
      in s\<lparr>registry := (registry s)(n := None), calls := calls s @ [CallUnregister n]\<rparr>)"

text \<open>
  \<^verbatim>\<open>utf8.ValidString\<close>: is the byte string well-formed UTF-8? One byte below 0x80; or
  a lead byte 0xC2 to 0xF4 with the one, two or three continuation bytes it calls for,
  the first of them in the range that excludes overlong forms, surrogates and code points
  above U+10FFFF.
\<close>

definition inRange :: "nat \<Rightarrow> nat \<Rightarrow> char \<Rightarrow> bool" where
  "inRange lo hi b = (lo \<le> of_char b \<and> (of_char b :: nat) \<le> hi)"

fun ValidString :: "string \<Rightarrow> bool" where
  "ValidString [] = True"
| "ValidString (b # bs) =
     (if (of_char b :: nat) < 128 then ValidString bs
      else if inRange 194 223 b then
        (case bs of c1 # r \<Rightarrow> inRange 128 191 c1 \<and> ValidString r | _ \<Rightarrow> False)
      else if inRange 224 224 b then
        (case bs of c1 # c2 # r \<Rightarrow> inRange 160 191 c1 \<and> inRange 128 191 c2 \<and> ValidString r
         | _ \<Rightarrow> False)
      else if inRange 225 236 b \<or> inRange 238 239 b then
        (case bs of c1 # c2 # r \<Rightarrow> inRange 128 191 c1 \<and> inRange 128 191 c2 \<and> ValidString r
         | _ \<Rightarrow> False)
      else if inRange 237 237 b then
        (case bs of c1 # c2 # r \<Rightarrow> inRange 128 159 c1 \<and> inRange 128 191 c2 \<and> ValidString r
         | _ \<Rightarrow> False)
      else if inRange 240 240 b then
        (case bs of c1 # c2 # c3 # r \<Rightarrow>
           inRange 144 191 c1 \<and> inRange 128 191 c2 \<and> inRange 128 191 c3 \<and> ValidString r
         | _ \<Rightarrow> False)
      else if inRange 241 243 b then
        (case bs of c1 # c2 # c3 # r \<Rightarrow>
           inRange 128 191 c1 \<and> inRange 128 191 c2 \<and> inRange 128 191 c3 \<and> ValidString r
         | _ \<Rightarrow> False)
      else if inRange 244 244 b then
        (case bs of c1 # c2 # c3 # r \<Rightarrow>
           inRange 128 143 c1 \<and> inRange 128 191 c2 \<and> inRange 128 191 c3 \<and> ValidString r
         | _ \<Rightarrow> False)
      else False)"

text \<open>
  The label names every \<^verbatim>\<open>NewGaugeVec\<close> of the program gives, and the library's check of
  the label values given to \<^verbatim>\<open>WithLabelValues\<close>: as many values as names, each valid
  UTF-8. The error is that of the first value that is not.
\<close>

definition labelNames :: "string list" where
  "labelNames = [''app_uid'', ''engine_name'', ''kubernetes_version'', ''openebs_version'']"

definition validateLabelValues :: "string list \<Rightarrow> error option" where
  "validateLabelValues vals =
     (if length vals \<noteq> length labelNames
      then Some (PanicInconsistentCardinality (length labelNames) (length vals))
      else (case List.find (\<lambda>val. \<not> ValidString val) vals of
              Some val \<Rightarrow> Some (PanicInvalidLabelValue val)
            | None \<Rightarrow> None))"

text \<open>The child of the gauge \<^verbatim>\<open>g\<close> for the label values \<^verbatim>\<open>lvs\<close> becomes \<^verbatim>\<open>v\<close>.\<close>

definition storeChild :: "nat \<Rightarrow> string list \<Rightarrow> float64 \<Rightarrow> state \<Rightarrow> state" where
  "storeChild g lvs v s =
     s\<lparr>gauges := (gauges s)(g := (gauges s g)\<lparr>children := (children (gauges s g))(lvs \<mapsto> v)\<rparr>)\<rparr>"

text \<open>
  \<^verbatim>\<open>g.WithLabelValues(lvs...).Set(v)\<close>: \<^verbatim>\<open>WithLabelValues\<close> panics when the label
  values do not pass the check; otherwise the child of \<^verbatim>\<open>g\<close> for them is set to \<^verbatim>\<open>v\<close>.
\<close>

definition SetWithLabelValues ::
  "nat \<Rightarrow> string list \<Rightarrow> float64 \<Rightarrow> state \<Rightarrow> (error \<times> state) + state" where
  "SetWithLabelValues g lvs v s =
     (case validateLabelValues lvs of
        Some e \<Rightarrow> Inl (e, s)
      | None \<Rightarrow> Inr (storeChild g lvs v s))"

text \<open>
  What a scrape of the registry shows for the series \<^verbatim>\<open>n\<close> and the label values
  \<^verbatim>\<open>lvs\<close>: the child of the collector registered under \<^verbatim>\<open>n\<close>, if any.
\<close>

definition exposed :: "state \<Rightarrow> string \<Rightarrow> string list \<Rightarrow> float64 option" where
  "exposed s n lvs = (case registry s n of None \<Rightarrow> None | Some c \<Rightarrow> children (gauges s c) lvs)"

section \<open>The program\<close>

text \<open>\<^verbatim>\<open>contains\<close>: is the string in the list?\<close>

fun contains :: "string list \<Rightarrow> string \<Rightarrow> bool" where
  "contains [] e = False"
| "contains (i # l) e = (if i = e then True else contains l e)"

text \<open>The name given to the gauge of an experiment (line 116).\<close>

definition sanitizedExpName :: "string \<Rightarrow> string" where
  "sanitizedExpName index = Replace index ''-'' ''_'' (- 1)"

text \<open>Lines 139 to 141: the three fixed gauges take the counts of the poll.\<close>

definition setFixed ::
  "string list \<Rightarrow> float64 \<times> float64 \<times> float64 \<Rightarrow> state \<Rightarrow> (error \<times> state) + state" where
  "setFixed lvs counts s =
     (case counts of (expTotal, passTotal, failTotal) \<Rightarrow>
        (case SetWithLabelValues experimentsTotal lvs expTotal s of
           Inl e \<Rightarrow> Inl e
         | Inr s1 \<Rightarrow>
             (case SetWithLabelValues passedExperiments lvs passTotal s1 of
                Inl e \<Rightarrow> Inl e
              | Inr s2 \<Rightarrow> SetWithLabelValues failedExperiments lvs failTotal s2)))"

text \<open>
  The body of the loop over \<^verbatim>\<open>expMap\<close> (lines 116 to 141), for one entry
  \<^verbatim>\<open>(index, verdict)\<close>. The argument \<^verbatim>\<open>lvs\<close> stands for the four label values
  \<^verbatim>\<open>appUUID, chaosEngine, kubernetesVersion, openebsVersion\<close> that every
  \<^verbatim>\<open>WithLabelValues\<close> of \<^verbatim>\<open>exporter\<close> passes, and \<^verbatim>\<open>counts\<close> for
  \<^verbatim>\<open>expTotal, passTotal, failTotal\<close>.
\<close>

definition loopBody ::
  "string list \<Rightarrow> float64 \<times> float64 \<times> float64 \<Rightarrow> string \<times> float64 \<Rightarrow> state
     \<Rightarrow> (error \<times> state) + state" where
  "loopBody lvs counts entry s =
     (case entry of (index, verdict) \<Rightarrow>
        (case NewGaugeVec ''c'' ''exp'' (sanitizedExpName index) s of (tmpExp, s0) \<Rightarrow>
           if contains (registeredResultMetrics s0) (sanitizedExpName index) then
             (case MustRegister tmpExp (Unregister tmpExp s0) of
                Inl e \<Rightarrow> Inl e
              | Inr s1 \<Rightarrow>
                  (case SetWithLabelValues tmpExp lvs verdict s1 of
                     Inl e \<Rightarrow> Inl e
                   | Inr s2 \<Rightarrow> setFixed lvs counts s2))
           else
             (case MustRegister tmpExp s0 of
                Inl e \<Rightarrow> Inl e
              | Inr s1 \<Rightarrow>
                  (case SetWithLabelValues tmpExp lvs verdict s1 of
                     Inl e \<Rightarrow> Inl e
                   | Inr s2 \<Rightarrow>
                       setFixed lvs counts
                         (s2\<lparr>registeredResultMetrics :=
                               registeredResultMetrics s2 @ [sanitizedExpName index]\<rparr>)))))"

text \<open>
  The loop over \<^verbatim>\<open>expMap\<close>. A Go map is iterated in an order the language does not
  fix, so the map is given as the list of its entries in the order of this iteration.
\<close>

fun reconcile ::
  "string list \<Rightarrow> float64 \<times> float64 \<times> float64 \<Rightarrow> (string \<times> float64) list \<Rightarrow> state
     \<Rightarrow> (error \<times> state) + state" where
  "reconcile lvs counts [] s = Inr s"
| "reconcile lvs counts (entry # expMap) s =
     (case loopBody lvs counts entry s of
        Inl e \<Rightarrow> Inl e
      | Inr s' \<Rightarrow> reconcile lvs counts expMap s')"

text \<open>
  \<^verbatim>\<open>exporter\<close>: the endless poll loop. What \<^verbatim>\<open>GetLitmusChaosMetrics\<close> returns on each
  iteration is an input: an error message, or the three counts and the map. The loop is
  run for as many iterations as there are results in the list; \<^verbatim>\<open>Inr s\<close> is the loop
  still running, in state \<^verbatim>\<open>s\<close>, after them, and \<^verbatim>\<open>Inl (e, s)\<close> is the process ended
  by \<^verbatim>\<open>e\<close> in state \<^verbatim>\<open>s\<close>.
\<close>

type_synonym fetched = "string + (float64 \<times> float64 \<times> float64 \<times> (string \<times> float64) list)"

fun exporter :: "string list \<Rightarrow> fetched list \<Rightarrow> state \<Rightarrow> (error \<times> state) + state" where
  "exporter lvs [] s = Inr s"
| "exporter lvs (Inl err # polls) s = Inl (Fatal (''Unable to get metrics: '' @ err), s)"
| "exporter lvs (Inr (expTotal, passTotal, failTotal, expMap) # polls) s =
     (case reconcile lvs (expTotal, passTotal, failTotal) expMap s of
        Inl e \<Rightarrow> Inl e
      | Inr s' \<Rightarrow> exporter lvs polls s')"

text \<open>The state a run has reached, ended or not.\<close>

fun stateOf :: "(error \<times> state) + state \<Rightarrow> state" where
  "stateOf (Inl (e, s)) = s"
| "stateOf (Inr s) = s"

text \<open>The fully-qualified names of the gauges.\<close>

definition fqExp :: "string \<Rightarrow> string" where
  "fqExp name = BuildFQName ''c'' ''exp'' name"

definition fqExperimentCount :: string where
  "fqExperimentCount = BuildFQName ''c'' ''engine'' ''experiment_count''"

definition fqPassedExperiments :: string where
  "fqPassedExperiments = BuildFQName ''c'' ''engine'' ''passed_experiments''"

definition fqFailedExperiments :: string where
  "fqFailedExperiments = BuildFQName ''c'' ''engine'' ''failed_experiments''"

text \<open>
  The state when \<^verbatim>\<open>main\<close> begins: the package-level variables are initialised, in the
  order of their declaration. The list is \<^verbatim>\<open>nil\<close>, the three fixed gauges exist and
  nothing is registered.
\<close>

definition noObjects :: state where
  "noObjects =
     \<lparr>gauges = (\<lambda>_. \<lparr>fqName = [], children = Map.empty\<rparr>), allocated = 0,
      registry = Map.empty, registeredResultMetrics = [], calls = []\<rparr>"

definition processStart :: state where
  "processStart =
     snd (NewGaugeVec ''c'' ''engine'' ''failed_experiments''
       (snd (NewGaugeVec ''c'' ''engine'' ''passed_experiments''
         (snd (NewGaugeVec ''c'' ''engine'' ''experiment_count'' noObjects)))))"

text \<open>Lines 192 to 194: \<^verbatim>\<open>main\<close> registers the fixed gauges.\<close>

definition registerFixed :: "state \<Rightarrow> (error \<times> state) + state" where
  "registerFixed s =
     (case MustRegister experimentsTotal s of
        Inl e \<Rightarrow> Inl e
      | Inr s1 \<Rightarrow>
          (case MustRegister passedExperiments s1 of
             Inl e \<Rightarrow> Inl e
           | Inr s2 \<Rightarrow> MustRegister failedExperiments s2))"

text \<open>The state in which \<^verbatim>\<open>main\<close> starts \<^verbatim>\<open>exporter\<close>.\<close>

definition metricsRegistered :: state where
  "metricsRegistered = stateOf (registerFixed processStart)"

text \<open>
  What \<^verbatim>\<open>main\<close> reads from outside: the environment, the outcome of
  \<^verbatim>\<open>flag.Parse\<close> (\<^verbatim>\<open>None\<close> when it rejects the command line, which exits with
  status 2; the value of \<^verbatim>\<open>-kubeconfig\<close> otherwise), and what the calls that load the
  cluster configuration and read the two versions return (a value and, for the versions,
  the error if there is one).
\<close>

record 'cfg startup =
  environ :: "string \<rightharpoonup> string"
  flagParse :: "string option"
  InClusterConfig :: "string + 'cfg"
  BuildConfigFromFlags :: "string \<Rightarrow> string + 'cfg"
  GetKubernetesVersion :: "'cfg \<Rightarrow> string \<times> string option"
  GetOpenebsVersion :: "'cfg \<Rightarrow> string \<Rightarrow> string \<times> string option"

definition Getenv :: "(string \<rightharpoonup> string) \<Rightarrow> string \<Rightarrow> string" where
  "Getenv env key = (case env key of None \<Rightarrow> [] | Some v \<Rightarrow> v)"

definition getNamespaceEnv :: "(string \<rightharpoonup> string) \<Rightarrow> string \<Rightarrow> string \<Rightarrow> string" where
  "getNamespaceEnv env key fallback = (case env key of Some v \<Rightarrow> v | None \<Rightarrow> fallback)"

definition getOpenebsEnv :: "(string \<rightharpoonup> string) \<Rightarrow> string \<Rightarrow> string \<Rightarrow> string" where
  "getOpenebsEnv env key fallback = (case env key of Some v \<Rightarrow> v | None \<Rightarrow> fallback)"

text \<open>The arguments \<^verbatim>\<open>main\<close> gives to \<^verbatim>\<open>exporter\<close>.\<close>

record 'cfg exporterArgs =
  argCfg :: 'cfg
  argChaosEngine :: string
  argAppUUID :: string
  argAppNS :: string
  argKubernetesVersion :: string
  argOpenebsVersion :: string

text \<open>
  \<^verbatim>\<open>main\<close>. The result is the lines logged at level Info and either the way the
  process ended, with the state it ended in, or (\<^verbatim>\<open>Inr\<close>) the arguments and the state
  with which \<^verbatim>\<open>exporter\<close> was started and the endpoint is served.
\<close>

definition mainGo ::
  "'cfg startup \<Rightarrow> string list \<times> ((error \<times> state) + ('cfg exporterArgs \<times> state))" where
  "mainGo st =
     (let applicationUUID = Getenv (environ st) ''APP_UUID'';
          chaosEngine = Getenv (environ st) ''CHAOSENGINE'';
          appNamespace = getNamespaceEnv (environ st) ''APP_NAMESPACE'' ''default'';
          openebsNamespace = getOpenebsEnv (environ st) ''OPENEBS_NAMESPACE'' ''openebs''
      in case flagParse st of
           None \<Rightarrow> ([], Inl (FlagExit, processStart))
         | Some kubeconfig \<Rightarrow>
             let log1 = (if kubeconfig = [] then [''using the in-cluster config'']
                         else [''using configuration from: '' @ kubeconfig]);
                 loaded = (if kubeconfig = [] then InClusterConfig st
                           else BuildConfigFromFlags st kubeconfig)
             in case loaded of
                  Inl err \<Rightarrow> (log1, Inl (Panic err, processStart))
                | Inr config \<Rightarrow>
                    if chaosEngine = [] \<or> applicationUUID = [] then
                      (log1,
                       Inl (Fatal ''ERROR: please specify correct APP_UUID & CHAOSENGINE ENVs'',
                            processStart))
                    else
                      (case GetKubernetesVersion st config of (kubernetesVersion, err1) \<Rightarrow>
                       case GetOpenebsVersion st config openebsNamespace of (openebsVersion, err2) \<Rightarrow>
                         let log2 = log1
                               @ (case err1 of None \<Rightarrow> []
                                  | Some e \<Rightarrow> [''Unable to get Kubernetes Version : '' @ e])
                               @ (case err2 of None \<Rightarrow> []
                                  | Some e \<Rightarrow> [''Unable to get OpenEBS Version : '' @ e])
                         in case registerFixed processStart of
                              Inl e \<Rightarrow> (log2, Inl e)
                            | Inr s \<Rightarrow>
                                (log2 @ [''Beginning to serve on port :8080''],
                                 Inr (\<lparr>argCfg = config, argChaosEngine = chaosEngine,
                                        argAppUUID = applicationUUID, argAppNS = appNamespace,
                                        argKubernetesVersion = kubernetesVersion,
                                        argOpenebsVersion = openebsVersion\<rparr>, s))))"

section \<open>Notions used to state the properties\<close>

text \<open>The error that ended a run, if it has ended, and the calls it made to the registry.\<close>

fun errorOf :: "(error \<times> state) + state \<Rightarrow> error option" where
  "errorOf (Inl (e, s)) = Some e"
| "errorOf (Inr s) = None"

definition callsOf :: "(error \<times> state) + state \<Rightarrow> registry_call list" where
  "callsOf r = calls (stateOf r)"

text \<open>
  The specification's words for a sanitized name: no separator is left in it that is not
  alphanumeric, the safe separator \<^verbatim>\<open>_\<close> apart.
\<close>

definition isAlphanumeric :: "char \<Rightarrow> bool" where
  "isAlphanumeric b =
     (let n = (of_char b :: nat)
      in (97 \<le> n \<and> n \<le> 122) \<or> (65 \<le> n \<and> n \<le> 90) \<or> (48 \<le> n \<and> n \<le> 57))"

definition separatorsNormalized :: "string \<Rightarrow> bool" where
  "separatorsNormalized name = list_all (\<lambda>c. isAlphanumeric c \<or> c = CHR ''_'') name"

text \<open>
  The invariant of the poll loop: the fixed gauges are registered, every name of the list
  is registered under a valid name with a gauge made by the loop, nothing else is
  registered, and the list has no duplicate.
\<close>

definition fixedNames :: "string set" where
  "fixedNames = {fqExperimentCount, fqPassedExperiments, fqFailedExperiments}"

definition loopInv :: "state \<Rightarrow> bool" where
  "loopInv s \<longleftrightarrow>
     registry s fqExperimentCount = Some experimentsTotal \<and>
     registry s fqPassedExperiments = Some passedExperiments \<and>
     registry s fqFailedExperiments = Some failedExperiments \<and>
     3 \<le> allocated s \<and>
     (\<forall>n \<in> set (registeredResultMetrics s).
        IsValidMetricName (fqExp n) \<and>
        (\<exists>c. registry s (fqExp n) = Some c \<and> 3 \<le> c \<and> c < allocated s)) \<and>
     dom (registry s) = fixedNames \<union> fqExp ` set (registeredResultMetrics s) \<and>
     distinct (registeredResultMetrics s)"

text \<open>
  What one iteration of the loop body does to the exposed values, as a function on them:
  the three fixed series take the counts and the series of the entry, a new gauge, has
  the verdict as its only child.
\<close>

definition exposedStep ::
  "string list \<Rightarrow> float64 \<times> float64 \<times> float64 \<Rightarrow> string \<times> float64
     \<Rightarrow> (string \<Rightarrow> string list \<Rightarrow> float64 option) \<Rightarrow> (string \<Rightarrow> string list \<Rightarrow> float64 option)" where
  "exposedStep lvs counts entry V =
     (\<lambda>n l.
        if n = fqExp (sanitizedExpName (fst entry)) then (if l = lvs then Some (snd entry) else None)
        else if l = lvs \<and> n = fqExperimentCount then Some (fst counts)
        else if l = lvs \<and> n = fqPassedExperiments then Some (fst (snd counts))
        else if l = lvs \<and> n = fqFailedExperiments then Some (snd (snd counts))
        else V n l)"

text \<open>Label values that pass the library's check, and what the three \<^verbatim>\<open>Set\<close> of the
  fixed gauges store when they do.\<close>

definition validLabelValues :: "string list \<Rightarrow> bool" where
  "validLabelValues lvs \<longleftrightarrow> validateLabelValues lvs = None"

definition storeFixed :: "string list \<Rightarrow> float64 \<times> float64 \<times> float64 \<Rightarrow> state \<Rightarrow> state" where
  "storeFixed lvs counts s =
     storeChild failedExperiments lvs (snd (snd counts))
       (storeChild passedExperiments lvs (fst (snd counts))
         (storeChild experimentsTotal lvs (fst counts) s))"

text \<open>An entry whose gauge has a name the library accepts.\<close>

definition validEntry :: "string \<times> float64 \<Rightarrow> bool" where
  "validEntry entry = IsValidMetricName (fqExp (sanitizedExpName (fst entry)))"

text \<open>The state after a successful iteration, written out.\<close>

definition after :: "string list \<Rightarrow> float64 \<times> float64 \<times> float64 \<Rightarrow> string \<times> float64 \<Rightarrow> state \<Rightarrow> state" where
  "after lvs counts entry s =
     (let n = sanitizedExpName (fst entry); a = allocated s in
      storeFixed lvs counts
        (s\<lparr>gauges := (gauges s)(a := \<lparr>fqName = fqExp n, children = [lvs \<mapsto> snd entry]\<rparr>),
           allocated := Suc a,
           registry := (registry s)(fqExp n \<mapsto> a),
           registeredResultMetrics :=
             (if n \<in> set (registeredResultMetrics s) then registeredResultMetrics s
              else registeredResultMetrics s @ [n]),
           calls := calls s @
             (if n \<in> set (registeredResultMetrics s) then [CallUnregister (fqExp n)] else [])
             @ [CallMustRegister (fqExp n)]\<rparr>))"

text \<open>
  The series of an entry, and the exposed values after a pass over a map, written out: each
  series of the map has the verdict of its last entry as its only child, the fixed series
  have the counts if the map is not empty, and every other value is what it was.
\<close>

definition seriesOf :: "string \<times> float64 \<Rightarrow> string \<times> float64" where
  "seriesOf entry = (fqExp (sanitizedExpName (fst entry)), snd entry)"

definition exposedAfter ::
  "string list \<Rightarrow> float64 \<times> float64 \<times> float64 \<Rightarrow> (string \<times> float64) list
     \<Rightarrow> (string \<Rightarrow> string list \<Rightarrow> float64 option) \<Rightarrow> (string \<Rightarrow> string list \<Rightarrow> float64 option)" where
  "exposedAfter lvs counts expMap V =
     (\<lambda>n l.
        case map_of (rev (map seriesOf expMap)) n of
          Some v \<Rightarrow> (if l = lvs then Some v else None)
        | None \<Rightarrow>
            if expMap \<noteq> [] \<and> l = lvs \<and> n = fqExperimentCount then Some (fst counts)
            else if expMap \<noteq> [] \<and> l = lvs \<and> n = fqPassedExperiments then Some (fst (snd counts))
            else if expMap \<noteq> [] \<and> l = lvs \<and> n = fqFailedExperiments then Some (snd (snd counts))
            else V n l)"

text \<open>Two startups used as examples: the variable CHAOSENGINE is not set in either.\<close>

definition startupWithoutEnv :: "unit startup" where
  "startupWithoutEnv =
     \<lparr>environ = [''APP_UUID'' \<mapsto> ''1234''], flagParse = Some [], InClusterConfig = Inr (),
      BuildConfigFromFlags = (\<lambda>path. Inr ()),
      GetKubernetesVersion = (\<lambda>config. (''v1.14.0'', None)),
      GetOpenebsVersion = (\<lambda>config namespace. (''1.0.0'', None))\<rparr>"

definition startupWithoutCluster :: "unit startup" where
  "startupWithoutCluster =
     startupWithoutEnv\<lparr>InClusterConfig := Inl ''unable to load in-cluster configuration''\<rparr>"

section \<open>Basic facts\<close>

lemma Replace_single:
  "Replace s [a] [b] (- 1) = map (\<lambda>c. if c = a then b else c) s"
proof -
  have "n < 0 \<Longrightarrow> Replace s [a] [b] n = map (\<lambda>c. if c = a then b else c) s" for n
    by (induction s arbitrary: n) auto
  then show ?thesis by simp
qed


lemma contains_iff: "contains l e \<longleftrightarrow> e \<in> set l"
  by (induction l) auto

lemma fqExp_eq: "fqExp n = (if n = [] then [] else ''c_exp_'' @ n)"
  by (simp add: fqExp_def BuildFQName_def)

lemma fqExp_inj: "fqExp a = fqExp b \<longleftrightarrow> a = b"
  by (auto simp: fqExp_eq)

lemma fixed_names_eq:
  "fqExperimentCount = ''c_engine_experiment_count''"
  "fqPassedExperiments = ''c_engine_passed_experiments''"
  "fqFailedExperiments = ''c_engine_failed_experiments''"
  by (simp_all add: fqExperimentCount_def fqPassedExperiments_def fqFailedExperiments_def
      BuildFQName_def)

lemma fqExp_not_fixed:
  "fqExp n \<noteq> fqExperimentCount" "fqExp n \<noteq> fqPassedExperiments" "fqExp n \<noteq> fqFailedExperiments"
  "fqExperimentCount \<noteq> fqExp n" "fqPassedExperiments \<noteq> fqExp n" "fqFailedExperiments \<noteq> fqExp n"
  by (simp_all add: fqExp_eq fixed_names_eq)

lemma fixed_distinct:
  "fqExperimentCount \<noteq> fqPassedExperiments" "fqExperimentCount \<noteq> fqFailedExperiments"
  "fqPassedExperiments \<noteq> fqFailedExperiments"
  "fqPassedExperiments \<noteq> fqExperimentCount" "fqFailedExperiments \<noteq> fqExperimentCount"
  "fqFailedExperiments \<noteq> fqPassedExperiments"
  by (simp_all add: fixed_names_eq)

lemma fixed_valid:
  "IsValidMetricName fqExperimentCount" "IsValidMetricName fqPassedExperiments"
  "IsValidMetricName fqFailedExperiments"
  by (simp_all add: fixed_names_eq isNameStart_def isDigit_def)

lemma registerFixed_processStart:
  "registerFixed processStart = Inr
     \<lparr>gauges = (\<lambda>_. \<lparr>fqName = [], children = Map.empty\<rparr>)
         (0 := \<lparr>fqName = fqExperimentCount, children = Map.empty\<rparr>,
          Suc 0 := \<lparr>fqName = fqPassedExperiments, children = Map.empty\<rparr>,
          2 := \<lparr>fqName = fqFailedExperiments, children = Map.empty\<rparr>),
      allocated = 3,
      registry = [fqExperimentCount \<mapsto> 0, fqPassedExperiments \<mapsto> 1, fqFailedExperiments \<mapsto> 2],
      registeredResultMetrics = [],
      calls = [CallMustRegister fqExperimentCount, CallMustRegister fqPassedExperiments,
               CallMustRegister fqFailedExperiments]\<rparr>"
  by (simp add: registerFixed_def processStart_def noObjects_def NewGaugeVec_def MustRegister_def
      experimentsTotal_def passedExperiments_def failedExperiments_def fixed_valid fixed_distinct
      fqExperimentCount_def[symmetric] fqPassedExperiments_def[symmetric]
      fqFailedExperiments_def[symmetric] numeral_3_eq_3 numeral_2_eq_2)

section \<open>The invariant of the loop\<close>

lemma metricsRegistered_eq:
  "metricsRegistered =
     \<lparr>gauges = (\<lambda>_. \<lparr>fqName = [], children = Map.empty\<rparr>)
         (0 := \<lparr>fqName = fqExperimentCount, children = Map.empty\<rparr>,
          Suc 0 := \<lparr>fqName = fqPassedExperiments, children = Map.empty\<rparr>,
          2 := \<lparr>fqName = fqFailedExperiments, children = Map.empty\<rparr>),
      allocated = 3,
      registry = [fqExperimentCount \<mapsto> 0, fqPassedExperiments \<mapsto> 1, fqFailedExperiments \<mapsto> 2],
      registeredResultMetrics = [],
      calls = [CallMustRegister fqExperimentCount, CallMustRegister fqPassedExperiments,
               CallMustRegister fqFailedExperiments]\<rparr>"
  by (simp add: metricsRegistered_def registerFixed_processStart)

lemma loopInv_metricsRegistered: "loopInv metricsRegistered"
  by (auto simp: loopInv_def metricsRegistered_eq fixedNames_def fixed_distinct
      experimentsTotal_def passedExperiments_def failedExperiments_def)

lemma storeFixed_simps [simp]:
  "allocated (storeFixed lvs counts s) = allocated s"
  "registry (storeFixed lvs counts s) = registry s"
  "registeredResultMetrics (storeFixed lvs counts s) = registeredResultMetrics s"
  "calls (storeFixed lvs counts s) = calls s"
  by (simp_all add: storeFixed_def storeChild_def split: prod.splits)

lemma validLabelValues_iff:
  "validLabelValues lvs \<longleftrightarrow> length lvs = length labelNames \<and> list_all ValidString lvs"
proof (cases "List.find (\<lambda>val. \<not> ValidString val) lvs")
  case None
  then have "\<forall>x \<in> set lvs. ValidString x" by (simp add: find_None_iff)
  then show ?thesis
    using None by (auto simp: validLabelValues_def validateLabelValues_def list_all_iff)
next
  case (Some val)
  then have "List.find (\<lambda>val. \<not> ValidString val) lvs \<noteq> None" by simp
  then have "\<exists>x \<in> set lvs. \<not> ValidString x" by (auto simp: find_None_iff)
  then show ?thesis
    using Some by (auto simp: validLabelValues_def validateLabelValues_def list_all_iff)
qed

lemma example_labels: "validLabelValues [''u'', ''e'', ''k'', ''o'']"
  by (simp add: validLabelValues_def validateLabelValues_def labelNames_def)

lemma validate_not_registration:
  "validateLabelValues lvs \<noteq> Some (PanicAlreadyRegistered n)"
  "validateLabelValues lvs \<noteq> Some (PanicInvalidMetricName n)"
  by (auto simp: validateLabelValues_def split: option.splits)

lemma SetWithLabelValues_valid:
  "validLabelValues lvs \<Longrightarrow> SetWithLabelValues g lvs v s = Inr (storeChild g lvs v s)"
  by (simp add: SetWithLabelValues_def validLabelValues_def)

lemma SetWithLabelValues_invalid:
  "validateLabelValues lvs = Some e \<Longrightarrow> SetWithLabelValues g lvs v s = Inl (e, s)"
  by (simp add: SetWithLabelValues_def)

lemma setFixed_valid:
  "validLabelValues lvs \<Longrightarrow> setFixed lvs counts s = Inr (storeFixed lvs counts s)"
  by (cases counts) (simp add: setFixed_def storeFixed_def SetWithLabelValues_valid)

lemma not_registered:
  assumes "loopInv s" and "n \<notin> set (registeredResultMetrics s)"
  shows "registry s (fqExp n) = None"
proof -
  have "fqExp n \<notin> dom (registry s)"
    using assms by (auto simp: loopInv_def fixedNames_def fqExp_not_fixed fqExp_inj)
  then show ?thesis by auto
qed

lemma loopBody_inv:
  assumes "loopInv s" and "IsValidMetricName (fqExp (sanitizedExpName (fst entry)))"
    and "validLabelValues lvs"
  shows "loopBody lvs counts entry s = Inr (after lvs counts entry s)"
proof -
  obtain index verdict where e: "entry = (index, verdict)" by (cases entry)
  show ?thesis
    using assms(2) not_registered [OF assms(1), of "sanitizedExpName index"]
    by (auto simp: e loopBody_def NewGaugeVec_def MustRegister_def Unregister_def after_def
        contains_iff fqExp_def[symmetric] SetWithLabelValues_valid [OF assms(3)]
        setFixed_valid [OF assms(3)] storeChild_def Let_def
        intro!: arg_cong[where f="storeFixed lvs counts"])
qed

lemma loopBody_invalid:
  assumes "loopInv s" and "\<not> IsValidMetricName (fqExp (sanitizedExpName (fst entry)))"
  shows "\<exists>s'. loopBody lvs counts entry s =
            Inl (PanicInvalidMetricName (fqExp (sanitizedExpName (fst entry))), s')"
proof -
  obtain index verdict where e: "entry = (index, verdict)" by (cases entry)
  have "sanitizedExpName index \<notin> set (registeredResultMetrics s)"
    using assms by (auto simp: loopInv_def e)
  then show ?thesis
    using assms(2)
    by (simp add: e loopBody_def NewGaugeVec_def MustRegister_def contains_iff
        fqExp_def[symmetric] Let_def)
qed

lemma loopBody_bad_labels:
  assumes "loopInv s" and "IsValidMetricName (fqExp (sanitizedExpName (fst entry)))"
    and "validateLabelValues lvs = Some e"
  shows "\<exists>s'. loopBody lvs counts entry s = Inl (e, s')"
proof -
  obtain index verdict where en: "entry = (index, verdict)" by (cases entry)
  show ?thesis
    using assms(2) not_registered [OF assms(1), of "sanitizedExpName index"]
    by (auto simp: en loopBody_def NewGaugeVec_def MustRegister_def Unregister_def
        contains_iff fqExp_def[symmetric] SetWithLabelValues_invalid [OF assms(3)] Let_def)
qed

lemma loopBody_Inr:
  assumes "loopInv s" and "loopBody lvs counts entry s = Inr s'"
  shows "validEntry entry \<and> validLabelValues lvs \<and> s' = after lvs counts entry s"
proof -
  have v: "validEntry entry"
  proof (rule ccontr)
    assume "\<not> validEntry entry"
    then obtain s1 where
      "loopBody lvs counts entry s =
         Inl (PanicInvalidMetricName (fqExp (sanitizedExpName (fst entry))), s1)"
      using loopBody_invalid [OF assms(1), of entry lvs counts] by (auto simp: validEntry_def)
    then show False using assms(2) by simp
  qed
  have l: "validLabelValues lvs"
  proof (rule ccontr)
    assume "\<not> validLabelValues lvs"
    then obtain e where "validateLabelValues lvs = Some e"
      by (auto simp: validLabelValues_def)
    then obtain s1 where "loopBody lvs counts entry s = Inl (e, s1)"
      using loopBody_bad_labels [OF assms(1), of entry lvs e counts] v
      by (auto simp: validEntry_def)
    then show False using assms(2) by simp
  qed
  have "loopBody lvs counts entry s = Inr (after lvs counts entry s)"
    using loopBody_inv [OF assms(1) _ l] v by (simp add: validEntry_def)
  then show ?thesis using v l assms(2) by simp
qed

lemma after_simps [simp]:
  "allocated (after lvs counts entry s) = Suc (allocated s)"
  "registry (after lvs counts entry s) =
     (registry s)(fqExp (sanitizedExpName (fst entry)) \<mapsto> allocated s)"
  "registeredResultMetrics (after lvs counts entry s) =
     (if sanitizedExpName (fst entry) \<in> set (registeredResultMetrics s)
      then registeredResultMetrics s
      else registeredResultMetrics s @ [sanitizedExpName (fst entry)])"
  "calls (after lvs counts entry s) = calls s @
     (if sanitizedExpName (fst entry) \<in> set (registeredResultMetrics s)
      then [CallUnregister (fqExp (sanitizedExpName (fst entry)))] else [])
     @ [CallMustRegister (fqExp (sanitizedExpName (fst entry)))]"
  by (simp_all add: after_def Let_def)

lemma loopInv_after:
  assumes "loopInv s" and "validEntry entry"
  shows "loopInv (after lvs counts entry s)"
proof -
  let ?n = "sanitizedExpName (fst entry)"
  have dom_eq: "dom (registry s) = fixedNames \<union> fqExp ` set (registeredResultMetrics s)"
    using assms(1) by (simp add: loopInv_def)
  have "\<forall>n \<in> set (registeredResultMetrics s).
          IsValidMetricName (fqExp n) \<and>
          (\<exists>c. registry s (fqExp n) = Some c \<and> 3 \<le> c \<and> c < allocated s)"
    using assms(1) by (simp add: loopInv_def)
  then have old: "\<forall>n \<in> set (registeredResultMetrics s).
          IsValidMetricName (fqExp n) \<and>
          (\<exists>c. ((registry s)(fqExp ?n \<mapsto> allocated s)) (fqExp n) = Some c \<and> 3 \<le> c
               \<and> c < Suc (allocated s))"
    using assms(1) by (auto simp: loopInv_def less_Suc_eq)
  have new: "IsValidMetricName (fqExp ?n) \<and>
          (\<exists>c. ((registry s)(fqExp ?n \<mapsto> allocated s)) (fqExp ?n) = Some c \<and> 3 \<le> c
               \<and> c < Suc (allocated s))"
    using assms by (simp add: loopInv_def validEntry_def)
  have dom_new: "dom ((registry s)(fqExp ?n \<mapsto> allocated s)) =
      fixedNames \<union> fqExp ` set (registeredResultMetrics (after lvs counts entry s))"
    using dom_eq by auto
  show ?thesis
    unfolding loopInv_def
    using assms(1) old new dom_new
    by (auto simp: loopInv_def fqExp_not_fixed)
qed

lemma exposed_storeFixed:
  "exposed (storeFixed lvs counts s) n l =
     (case registry s n of None \<Rightarrow> None
      | Some c \<Rightarrow>
          if l = lvs \<and> c = failedExperiments then Some (snd (snd counts))
          else if l = lvs \<and> c = passedExperiments then Some (fst (snd counts))
          else if l = lvs \<and> c = experimentsTotal then Some (fst counts)
          else children (gauges s c) l)"
  by (cases counts)
     (auto simp: exposed_def storeFixed_def storeChild_def split: option.splits)

lemma exposed_after:
  assumes "loopInv s"
  shows "exposed (after lvs counts entry s) = exposedStep lvs counts entry (exposed s)"
proof (intro ext)
  fix n l
  let ?q = "fqExp (sanitizedExpName (fst entry))"
  have fixed: "registry s fqExperimentCount = Some experimentsTotal"
    "registry s fqPassedExperiments = Some passedExperiments"
    "registry s fqFailedExperiments = Some failedExperiments" and al: "3 \<le> allocated s"
    using assms by (simp_all add: loopInv_def)
  have dyn: "\<And>m c. registry s m = Some c \<Longrightarrow> m \<notin> fixedNames \<Longrightarrow> 3 \<le> c \<and> c < allocated s"
  proof -
    fix m c assume a: "registry s m = Some c" "m \<notin> fixedNames"
    then have "m \<in> dom (registry s)" by auto
    then have "m \<in> fqExp ` set (registeredResultMetrics s)"
      using assms a(2) by (auto simp: loopInv_def)
    then show "3 \<le> c \<and> c < allocated s"
      using assms a(1) by (auto simp: loopInv_def)
  qed
  have L: "exposed (after lvs counts entry s) n l =
     (case ((registry s)(?q \<mapsto> allocated s)) n of None \<Rightarrow> None
      | Some c \<Rightarrow>
          if l = lvs \<and> c = failedExperiments then Some (snd (snd counts))
          else if l = lvs \<and> c = passedExperiments then Some (fst (snd counts))
          else if l = lvs \<and> c = experimentsTotal then Some (fst counts)
          else children (((gauges s)(allocated s := \<lparr>fqName = ?q, children = [lvs \<mapsto> snd entry]\<rparr>)) c) l)"
    by (auto simp: after_def Let_def exposed_storeFixed split: option.split)
  show "exposed (after lvs counts entry s) n l = exposedStep lvs counts entry (exposed s) n l"
  proof (cases "n = ?q")
    case True
    show ?thesis
      unfolding L exposedStep_def using True al
      by (simp add: experimentsTotal_def passedExperiments_def failedExperiments_def)
  next
    case nq: False
    show ?thesis
    proof (cases "n \<in> fixedNames")
      case True
      show ?thesis
        unfolding L exposedStep_def using True nq fixed al
        by (auto simp: experimentsTotal_def
            passedExperiments_def failedExperiments_def fixedNames_def fixed_distinct exposed_def)
    next
      case False
      then have nf: "n \<noteq> fqExperimentCount" "n \<noteq> fqPassedExperiments" "n \<noteq> fqFailedExperiments"
        by (auto simp: fixedNames_def)
      show ?thesis
      proof (cases "registry s n")
        case None
        show ?thesis
          unfolding L exposedStep_def using None nq nf by (simp add: exposed_def)
      next
        case (Some c)
        from dyn[OF Some False] show ?thesis
          unfolding L exposedStep_def using nq nf Some
          by (auto simp: exposed_def
              experimentsTotal_def passedExperiments_def failedExperiments_def)
      qed
    qed
  qed
qed

lemma reconcile_valid:
  "loopInv s \<Longrightarrow> list_all validEntry expMap \<Longrightarrow> expMap = [] \<or> validLabelValues lvs \<Longrightarrow>
     reconcile lvs counts expMap s = Inr (fold (after lvs counts) expMap s) \<and>
     loopInv (fold (after lvs counts) expMap s)"
proof (induction expMap arbitrary: s)
  case Nil
  then show ?case by simp
next
  case (Cons entry expMap)
  then have v: "validEntry entry" and vs: "list_all validEntry expMap"
    and l: "validLabelValues lvs" by simp_all
  have step: "loopBody lvs counts entry s = Inr (after lvs counts entry s)"
    using loopBody_inv [OF Cons.prems(1) _ l] v by (simp add: validEntry_def)
  have "loopInv (after lvs counts entry s)"
    using loopInv_after Cons.prems(1) v by blast
  from Cons.IH [OF this vs] l show ?case by (simp add: step)
qed

lemma reconcile_Inr:
  "loopInv s \<Longrightarrow> reconcile lvs counts expMap s = Inr s' \<Longrightarrow>
     list_all validEntry expMap \<and> s' = fold (after lvs counts) expMap s \<and> loopInv s' \<and>
     (expMap = [] \<or> validLabelValues lvs)"
proof (induction expMap arbitrary: s)
  case Nil
  then show ?case by simp
next
  case (Cons entry expMap)
  from Cons.prems(2) obtain s1 where b: "loopBody lvs counts entry s = Inr s1"
    and r: "reconcile lvs counts expMap s1 = Inr s'"
    by (auto split: sum.splits)
  have v: "validEntry entry" and l: "validLabelValues lvs"
    and s1: "s1 = after lvs counts entry s"
    using loopBody_Inr [OF Cons.prems(1) b] by blast+
  have i: "loopInv s1"
    using loopInv_after Cons.prems(1) v s1 by blast
  from Cons.IH [OF i r] v l s1 show ?case by auto
qed

lemma exporter_inv:
  "loopInv s \<Longrightarrow> registeredResultMetrics s = [] \<or> validLabelValues lvs \<Longrightarrow>
     exporter lvs polls s = Inr s' \<Longrightarrow>
     loopInv s' \<and> (registeredResultMetrics s' = [] \<or> validLabelValues lvs)"
proof (induction lvs polls s rule: exporter.induct)
  case (1 lvs s)
  then show ?case by simp
next
  case (2 lvs err polls s)
  then show ?case by simp
next
  case (3 lvs expTotal passTotal failTotal expMap polls s)
  from "3.prems"(3) obtain s1 where
    r: "reconcile lvs (expTotal, passTotal, failTotal) expMap s = Inr s1"
    and e: "exporter lvs polls s1 = Inr s'"
    by (auto split: sum.splits)
  have i: "loopInv s1" and c: "expMap = [] \<or> validLabelValues lvs"
    and s1: "s1 = fold (after lvs (expTotal, passTotal, failTotal)) expMap s"
    using reconcile_Inr [OF "3.prems"(1) r] by blast+
  have "registeredResultMetrics s1 = [] \<or> validLabelValues lvs"
    using c "3.prems"(2) s1 by auto
  from "3.IH" [OF r i this e] show ?case .
qed

lemma reachable_inv:
  "exporter lvs polls metricsRegistered = Inr s \<Longrightarrow> loopInv s"
  using exporter_inv [OF loopInv_metricsRegistered] by (simp add: metricsRegistered_eq)

lemma reachable_labels:
  "exporter lvs polls metricsRegistered = Inr s \<Longrightarrow>
     registeredResultMetrics s = [] \<or> validLabelValues lvs"
  using exporter_inv [OF loopInv_metricsRegistered] by (simp add: metricsRegistered_eq)

lemma fold_after_names:
  "set (registeredResultMetrics (fold (after lvs counts) expMap s)) =
     set (registeredResultMetrics s) \<union> (sanitizedExpName \<circ> fst) ` set expMap"
  by (induction expMap arbitrary: s) auto

lemma fold_after_names_same:
  "(sanitizedExpName \<circ> fst) ` set expMap \<subseteq> set (registeredResultMetrics s) \<Longrightarrow>
     registeredResultMetrics (fold (after lvs counts) expMap s) = registeredResultMetrics s"
  by (induction expMap arbitrary: s) auto

lemma fold_after_dom:
  "dom (registry (fold (after lvs counts) expMap s)) =
     dom (registry s) \<union> (fqExp \<circ> sanitizedExpName \<circ> fst) ` set expMap"
  by (induction expMap arbitrary: s) auto

lemma fold_after_exposed:
  "loopInv s \<Longrightarrow> list_all validEntry expMap \<Longrightarrow>
     exposed (fold (after lvs counts) expMap s) = fold (exposedStep lvs counts) expMap (exposed s)"
proof (induction expMap arbitrary: s)
  case Nil
  then show ?case by simp
next
  case (Cons entry expMap)
  have i: "loopInv (after lvs counts entry s)"
    using loopInv_after Cons.prems by simp
  show ?case
    using Cons.IH[OF i] Cons.prems by (simp add: exposed_after)
qed

lemma exporter_append:
  "exporter lvs (polls @ rest) s =
     (case exporter lvs polls s of Inl e \<Rightarrow> Inl e | Inr s' \<Rightarrow> exporter lvs rest s')"
  by (induction lvs polls s rule: exporter.induct) (auto split: sum.splits)

section \<open>The sanitized name\<close>

text \<open>
  Claim C3, as it is stated, fails: the name \<^verbatim>\<open>pod.failure\<close> keeps its dot, which is
  neither alphanumeric nor the safe separator.
\<close>

theorem separators_remain_counterexample:
  "\<not> separatorsNormalized (sanitizedExpName ''pod.failure'')"
  by (simp add: sanitizedExpName_def separatorsNormalized_def isAlphanumeric_def)

text \<open>
  Claim C3, amended: the sanitized name is the source name with every hyphen replaced by
  an underscore and every other byte kept as it is. No hyphen remains, the length is
  unchanged, and a name without a hyphen is its own sanitized name.
\<close>

theorem sanitizedExpName_replaces_hyphens:
  "sanitizedExpName index = map (\<lambda>c. if c = CHR ''-'' then CHR ''_'' else c) index \<and>
   CHR ''-'' \<notin> set (sanitizedExpName index) \<and>
   length (sanitizedExpName index) = length index \<and>
   (CHR ''-'' \<notin> set index \<longrightarrow> sanitizedExpName index = index)"
proof -
  have m: "sanitizedExpName index = map (\<lambda>c. if c = CHR ''-'' then CHR ''_'' else c) index"
    by (simp add: sanitizedExpName_def Replace_single)
  have "CHR ''-'' \<notin> set (map (\<lambda>c. if c = CHR ''-'' then CHR ''_'' else c) index)"
    by auto
  moreover have "CHR ''-'' \<notin> set index \<Longrightarrow>
      map (\<lambda>c. if c = CHR ''-'' then CHR ''_'' else c) index = index"
    by (induction index) auto
  ultimately show ?thesis by (simp add: m)
qed

theorem sanitizedExpName_replaces_hyphens_witness:
  "sanitizedExpName ''pod-failure'' = ''pod_failure'' \<and>
   CHR ''-'' \<notin> set ''container_kill'' \<and> sanitizedExpName ''container_kill'' = ''container_kill''"
  using sanitizedExpName_replaces_hyphens [of "''pod-failure''"]
    sanitizedExpName_replaces_hyphens [of "''container_kill''"]
  by simp

section \<open>A failed fetch\<close>

text \<open>
  Claim C5: when the polls so far have left the loop running in state \<^verbatim>\<open>s'\<close> and the
  next fetch returns an error, the process ends with a fatal log line, in the very state
  \<^verbatim>\<open>s'\<close>: nothing is reconciled or set for this poll, and whatever the source would
  have returned later is never asked for.
\<close>

theorem fetch_error_is_fatal:
  "exporter lvs polls s = Inr s' \<Longrightarrow>
     exporter lvs (polls @ Inl err # later) s =
       Inl (Fatal (''Unable to get metrics: '' @ err), s')"
  by (simp add: exporter_append)

theorem fetch_error_is_fatal_witness:
  "exporter [''u'', ''e'', ''k'', ''o''] [Inr (1, 1, 0, [(''pod-failure'', 3)])] metricsRegistered
     = Inr (after [''u'', ''e'', ''k'', ''o''] (1, 1, 0) (''pod-failure'', 3) metricsRegistered) \<and>
   exporter [''u'', ''e'', ''k'', ''o'']
     ([Inr (1, 1, 0, [(''pod-failure'', 3)])] @ Inl ''timeout'' # [Inr (2, 2, 0, [(''pod-failure'', 3)])])
     metricsRegistered
     = Inl (Fatal ''Unable to get metrics: timeout'',
            after [''u'', ''e'', ''k'', ''o''] (1, 1, 0) (''pod-failure'', 3) metricsRegistered)"
proof -
  have v: "IsValidMetricName (fqExp (sanitizedExpName (fst (''pod-failure'', 3::real))))"
    by (simp add: sanitizedExpName_def fqExp_eq isNameStart_def isDigit_def)
  have h: "exporter [''u'', ''e'', ''k'', ''o''] [Inr (1, 1, 0, [(''pod-failure'', 3)])] metricsRegistered
     = Inr (after [''u'', ''e'', ''k'', ''o''] (1, 1, 0) (''pod-failure'', 3) metricsRegistered)"
    using loopBody_inv [OF loopInv_metricsRegistered v example_labels] by simp
  show ?thesis
    using h fetch_error_is_fatal [OF h, of "''timeout''" "[Inr (2, 2, 0, [(''pod-failure'', 3)])]"]
    by simp
qed

section \<open>The list of registered names\<close>

lemma loopBody_names:
  "registeredResultMetrics (stateOf (loopBody lvs counts entry s)) = registeredResultMetrics s \<or>
   (sanitizedExpName (fst entry) \<notin> set (registeredResultMetrics s) \<and>
    registeredResultMetrics (stateOf (loopBody lvs counts entry s)) =
      registeredResultMetrics s @ [sanitizedExpName (fst entry)])"
  by (cases entry)
     (auto simp: loopBody_def NewGaugeVec_def MustRegister_def Unregister_def contains_iff Let_def
        SetWithLabelValues_def setFixed_def storeChild_def split: option.splits prod.splits)

lemma loopBody_grows:
  "prefix (registeredResultMetrics s) (registeredResultMetrics (stateOf (loopBody lvs counts entry s)))"
  using loopBody_names [of lvs counts entry s] by auto

lemma loopBody_distinct:
  "distinct (registeredResultMetrics s) \<Longrightarrow>
     distinct (registeredResultMetrics (stateOf (loopBody lvs counts entry s)))"
  using loopBody_names [of lvs counts entry s] by auto

lemma reconcile_Cons_state:
  "stateOf (reconcile lvs counts (entry # expMap) s) =
     (case loopBody lvs counts entry s of
        Inl e \<Rightarrow> stateOf (loopBody lvs counts entry s)
      | Inr s1 \<Rightarrow> stateOf (reconcile lvs counts expMap s1))"
  by (simp split: sum.splits)

lemma reconcile_grows:
  "prefix (registeredResultMetrics s) (registeredResultMetrics (stateOf (reconcile lvs counts expMap s)))"
proof (induction expMap arbitrary: s)
  case Nil
  then show ?case by simp
next
  case (Cons entry expMap)
  show ?case
  proof (cases "loopBody lvs counts entry s")
    case (Inl e)
    then show ?thesis
      using loopBody_grows [of s lvs counts entry] by (simp add: reconcile_Cons_state)
  next
    case (Inr s1)
    have "prefix (registeredResultMetrics s) (registeredResultMetrics s1)"
      using loopBody_grows [of s lvs counts entry] Inr by simp
    then show ?thesis
      using Cons.IH [of s1] Inr by (auto simp: reconcile_Cons_state intro: prefix_order.trans)
  qed
qed

lemma reconcile_distinct:
  "distinct (registeredResultMetrics s) \<Longrightarrow>
     distinct (registeredResultMetrics (stateOf (reconcile lvs counts expMap s)))"
proof (induction expMap arbitrary: s)
  case Nil
  then show ?case by simp
next
  case (Cons entry expMap)
  show ?case
  proof (cases "loopBody lvs counts entry s")
    case (Inl e)
    then show ?thesis
      using loopBody_distinct [OF Cons.prems, of lvs counts entry]
      by (simp add: reconcile_Cons_state)
  next
    case (Inr s1)
    have "distinct (registeredResultMetrics s1)"
      using loopBody_distinct [OF Cons.prems, of lvs counts entry] Inr by simp
    then show ?thesis
      using Cons.IH [of s1] Inr by (simp add: reconcile_Cons_state)
  qed
qed

lemma exporter_grows:
  "prefix (registeredResultMetrics s) (registeredResultMetrics (stateOf (exporter lvs polls s)))"
proof (induction lvs polls s rule: exporter.induct)
  case (1 lvs s)
  then show ?case by simp
next
  case (2 lvs err polls s)
  then show ?case by simp
next
  case (3 lvs expTotal passTotal failTotal expMap polls s)
  show ?case
  proof (cases "reconcile lvs (expTotal, passTotal, failTotal) expMap s")
    case (Inl e)
    then show ?thesis
      using reconcile_grows [of s lvs "(expTotal, passTotal, failTotal)" expMap] by simp
  next
    case (Inr s1)
    have "prefix (registeredResultMetrics s) (registeredResultMetrics s1)"
      using reconcile_grows [of s lvs "(expTotal, passTotal, failTotal)" expMap] Inr by simp
    then show ?thesis
      using "3.IH" [OF Inr] Inr by (auto intro: prefix_order.trans)
  qed
qed

lemma exporter_distinct:
  "distinct (registeredResultMetrics s) \<Longrightarrow>
     distinct (registeredResultMetrics (stateOf (exporter lvs polls s)))"
proof (induction lvs polls s rule: exporter.induct)
  case (1 lvs s)
  then show ?case by simp
next
  case (2 lvs err polls s)
  then show ?case by simp
next
  case (3 lvs expTotal passTotal failTotal expMap polls s)
  show ?case
  proof (cases "reconcile lvs (expTotal, passTotal, failTotal) expMap s")
    case (Inl e)
    then show ?thesis
      using reconcile_distinct [OF "3.prems", of lvs "(expTotal, passTotal, failTotal)" expMap]
      by simp
  next
    case (Inr s1)
    have "distinct (registeredResultMetrics s1)"
      using reconcile_distinct [OF "3.prems", of lvs "(expTotal, passTotal, failTotal)" expMap] Inr
      by simp
    then show ?thesis
      using "3.IH" [OF Inr] Inr by simp
  qed
qed

lemma names_at_start:
  "registeredResultMetrics processStart = []" "registeredResultMetrics metricsRegistered = []"
  by (simp_all add: processStart_def noObjects_def NewGaugeVec_def metricsRegistered_eq)


lemmas run_defs = loopBody_def NewGaugeVec_def MustRegister_def Unregister_def
  SetWithLabelValues_def setFixed_def validateLabelValues_def labelNames_def inRange_def
  storeChild_def storeFixed_def sanitizedExpName_def fqExp_def[symmetric] fqExp_eq
  isNameStart_def isDigit_def metricsRegistered_eq fixed_names_eq Let_def
  experimentsTotal_def passedExperiments_def failedExperiments_def

lemma two_polls_names:
  "registeredResultMetrics (stateOf (exporter [''u'', ''e'', ''k'', ''o'']
      [Inr (1, 1, 0, [(''pod-failure'', 3)]), Inr (1, 1, 0, [(''pod-failure'', 3)])]
      metricsRegistered)) = [''pod_failure'']"
  by (simp add: run_defs)

lemma first_poll_example:
  "exporter [''u'', ''e'', ''k'', ''o''] [Inr (1, 1, 0, [(''pod-failure'', 3)])] metricsRegistered
     = Inr (after [''u'', ''e'', ''k'', ''o''] (1, 1, 0) (''pod-failure'', 3) metricsRegistered)"
proof -
  have v: "IsValidMetricName (fqExp (sanitizedExpName (fst (''pod-failure'', 3::real))))"
    by (simp add: sanitizedExpName_def fqExp_eq isNameStart_def isDigit_def)
  show ?thesis using loopBody_inv [OF loopInv_metricsRegistered v example_labels] by simp
qed

lemma first_poll_names:
  "registeredResultMetrics
     (after [''u'', ''e'', ''k'', ''o''] (1, 1, 0) (''pod-failure'', 3) metricsRegistered)
   = [''pod_failure'']"
  by (simp add: names_at_start sanitizedExpName_def)


text \<open>
  Claim C8: the list of registered names is empty when the process starts and when
  \<^verbatim>\<open>exporter\<close> starts, and every iteration of the loop body, every pass over a map and
  every run of the poll loop, from any state and whether it ends in a panic or not,
  leaves a list that begins with the list it found: no entry is ever removed.
\<close>

theorem registered_names_only_grow:
  "registeredResultMetrics processStart = [] \<and>
   registeredResultMetrics metricsRegistered = [] \<and>
   prefix (registeredResultMetrics s)
     (registeredResultMetrics (stateOf (loopBody lvs counts entry s))) \<and>
   prefix (registeredResultMetrics s)
     (registeredResultMetrics (stateOf (reconcile lvs counts expMap s))) \<and>
   prefix (registeredResultMetrics s)
     (registeredResultMetrics (stateOf (exporter lvs polls s)))"
  by (simp add: names_at_start loopBody_grows reconcile_grows exporter_grows)


theorem registered_names_only_grow_witness:
  "prefix (registeredResultMetrics metricsRegistered) [''pod_failure''] \<and>
   registeredResultMetrics (stateOf (exporter [''u'', ''e'', ''k'', ''o'']
      [Inr (1, 1, 0, [(''pod-failure'', 3)]), Inr (1, 1, 0, [(''pod-failure'', 3)])]
      metricsRegistered)) = [''pod_failure'']"
  using registered_names_only_grow [of metricsRegistered "[''u'', ''e'', ''k'', ''o'']" _ _ _
      "[Inr (1, 1, 0, [(''pod-failure'', 3)]), Inr (1, 1, 0, [(''pod-failure'', 3)])]"]
  unfolding two_polls_names by simp

text \<open>
  Claim C9: \<^verbatim>\<open>contains\<close> is the membership test of the list, and the list never holds a
  name twice: not after any run of the poll loop from the start, and an iteration of the
  loop body or a run of the loop from any state whose list has no duplicate leaves a list
  without duplicate.
\<close>

theorem registered_names_distinct:
  "(contains l e \<longleftrightarrow> e \<in> set l) \<and>
   distinct (registeredResultMetrics (stateOf (exporter lvs polls metricsRegistered))) \<and>
   (distinct (registeredResultMetrics s) \<longrightarrow>
      distinct (registeredResultMetrics (stateOf (loopBody lvs counts entry s))) \<and>
      distinct (registeredResultMetrics (stateOf (exporter lvs polls s))))"
  using exporter_distinct [of metricsRegistered lvs polls]
  by (simp add: contains_iff names_at_start loopBody_distinct exporter_distinct)

theorem registered_names_distinct_witness:
  "distinct (registeredResultMetrics metricsRegistered) \<and>
   distinct (registeredResultMetrics (stateOf (exporter [''u'', ''e'', ''k'', ''o'']
      [Inr (1, 1, 0, [(''pod-failure'', 3)]), Inr (1, 1, 0, [(''pod-failure'', 3)])]
      metricsRegistered))) \<and>
   distinct (registeredResultMetrics (stateOf
      (loopBody [''u'', ''e'', ''k'', ''o''] (1, 1, 0) (''pod-failure'', 3) metricsRegistered)))"
  using registered_names_distinct [of _ _ "[''u'', ''e'', ''k'', ''o'']"
      "[Inr (1, 1, 0, [(''pod-failure'', 3)]), Inr (1, 1, 0, [(''pod-failure'', 3)])]"
      metricsRegistered "(1, 1, 0)" "(''pod-failure'', 3)"]
  by (simp add: names_at_start)

section \<open>Registering a series\<close>

lemma reconcile_error:
  "loopInv s \<Longrightarrow>
     errorOf (reconcile lvs counts expMap s) = None \<or>
     (\<exists>entry \<in> set expMap. \<not> validEntry entry \<and>
        errorOf (reconcile lvs counts expMap s)
          = Some (PanicInvalidMetricName (fqExp (sanitizedExpName (fst entry))))) \<or>
     (expMap \<noteq> [] \<and> \<not> validLabelValues lvs \<and>
        errorOf (reconcile lvs counts expMap s) = validateLabelValues lvs)"
proof (induction expMap arbitrary: s)
  case Nil
  then show ?case by simp
next
  case (Cons entry expMap)
  show ?case
  proof (cases "validEntry entry")
    case False
    then show ?thesis
      using loopBody_invalid [OF Cons.prems, of entry lvs counts] by (auto simp: validEntry_def)
  next
    case v: True
    show ?thesis
    proof (cases "validLabelValues lvs")
      case True
      have step: "loopBody lvs counts entry s = Inr (after lvs counts entry s)"
        using loopBody_inv [OF Cons.prems _ True] v by (simp add: validEntry_def)
      have "loopInv (after lvs counts entry s)"
        using loopInv_after Cons.prems v by blast
      from Cons.IH [OF this] True show ?thesis by (auto simp: step)
    next
      case False
      then obtain e where e: "validateLabelValues lvs = Some e"
        by (auto simp: validLabelValues_def)
      then obtain s1 where "loopBody lvs counts entry s = Inl (e, s1)"
        using loopBody_bad_labels [OF Cons.prems, of entry lvs e counts] v
        by (auto simp: validEntry_def)
      then show ?thesis using False e by simp
    qed
  qed
qed

lemma exporter_error:
  "loopInv s \<Longrightarrow> errorOf (exporter lvs polls s) \<noteq> Some (PanicAlreadyRegistered n)"
proof (induction lvs polls s rule: exporter.induct)
  case (1 lvs s)
  then show ?case by simp
next
  case (2 lvs err polls s)
  then show ?case by simp
next
  case (3 lvs expTotal passTotal failTotal expMap polls s)
  show ?case
  proof (cases "reconcile lvs (expTotal, passTotal, failTotal) expMap s")
    case (Inl e)
    then show ?thesis
      using reconcile_error [OF "3.prems", of lvs "(expTotal, passTotal, failTotal)" expMap]
        validate_not_registration(1) [of lvs n]
      by auto
  next
    case (Inr s1)
    have "loopInv s1" using reconcile_Inr [OF "3.prems" Inr] by blast
    from "3.IH" [OF Inr this] show ?thesis using Inr by simp
  qed
qed

text \<open>
  Claim C1, as it is stated, fails: once \<^verbatim>\<open>pod-failure\<close> is recorded, the next iteration
  for it calls \<^verbatim>\<open>Unregister\<close> and then \<^verbatim>\<open>MustRegister\<close> for the series again.
\<close>

theorem reregistration_counterexample:
  "contains
     (registeredResultMetrics (stateOf (exporter [''u'', ''e'', ''k'', ''o'']
        [Inr (1, 1, 0, [(''pod-failure'', 3)])] metricsRegistered)))
     (sanitizedExpName ''pod-failure'') \<and>
   callsOf (loopBody [''u'', ''e'', ''k'', ''o''] (1, 1, 0) (''pod-failure'', 3)
      (stateOf (exporter [''u'', ''e'', ''k'', ''o'']
        [Inr (1, 1, 0, [(''pod-failure'', 3)])] metricsRegistered))) =
   callsOf (exporter [''u'', ''e'', ''k'', ''o'']
        [Inr (1, 1, 0, [(''pod-failure'', 3)])] metricsRegistered)
     @ [CallUnregister ''c_exp_pod_failure'', CallMustRegister ''c_exp_pod_failure'']"
  by (simp add: run_defs callsOf_def)


text \<open>
  Claim C1, amended: in a state reached by the poll loop, for an experiment name whose
  sanitized form is recorded in the list, the series is registered, and the iteration
  unregisters it, registers a new gauge under the same name, sets the value of that gauge
  for the label values and leaves the list as it is. Registering is never attempted while
  a series of the same name is registered: no run of the poll loop ends in the panic of a
  duplicate registration.
\<close>

theorem recorded_name_is_unregistered_then_registered:
  "(exporter lvs polls metricsRegistered = Inr s \<longrightarrow>
    contains (registeredResultMetrics s) (sanitizedExpName index) \<longrightarrow>
      registry s (fqExp (sanitizedExpName index)) \<noteq> None \<and>
      (\<exists>s'. loopBody lvs counts (index, verdict) s = Inr s' \<and>
            calls s' = calls s @ [CallUnregister (fqExp (sanitizedExpName index)),
                                  CallMustRegister (fqExp (sanitizedExpName index))] \<and>
            registeredResultMetrics s' = registeredResultMetrics s \<and>
            registry s' (fqExp (sanitizedExpName index)) = Some (allocated s) \<and>
            exposed s' (fqExp (sanitizedExpName index)) lvs = Some verdict)) \<and>
   errorOf (exporter lvs polls metricsRegistered) \<noteq> Some (PanicAlreadyRegistered n)"
proof (intro conjI impI)
  assume r: "exporter lvs polls metricsRegistered = Inr s"
    and c: "contains (registeredResultMetrics s) (sanitizedExpName index)"
  have i: "loopInv s" using reachable_inv [OF r] .
  have m: "sanitizedExpName index \<in> set (registeredResultMetrics s)"
    using c by (simp add: contains_iff)
  then have l: "validLabelValues lvs"
    using reachable_labels [OF r] by auto
  from m have v: "IsValidMetricName (fqExp (sanitizedExpName (fst (index, verdict))))"
    using i by (auto simp: loopInv_def)
  show "registry s (fqExp (sanitizedExpName index)) \<noteq> None"
    using i m by (auto simp: loopInv_def)
  have e: "exposed (after lvs counts (index, verdict) s) (fqExp (sanitizedExpName index)) lvs
      = Some verdict"
    by (simp add: exposed_after [OF i] exposedStep_def)
  show "\<exists>s'. loopBody lvs counts (index, verdict) s = Inr s' \<and>
            calls s' = calls s @ [CallUnregister (fqExp (sanitizedExpName index)),
                                  CallMustRegister (fqExp (sanitizedExpName index))] \<and>
            registeredResultMetrics s' = registeredResultMetrics s \<and>
            registry s' (fqExp (sanitizedExpName index)) = Some (allocated s) \<and>
            exposed s' (fqExp (sanitizedExpName index)) lvs = Some verdict"
    using loopBody_inv [OF i v l, of counts] m e by simp
next
  show "errorOf (exporter lvs polls metricsRegistered) \<noteq> Some (PanicAlreadyRegistered n)"
    using exporter_error [OF loopInv_metricsRegistered] .
qed


theorem recorded_name_is_unregistered_then_registered_witness:
  "exporter [''u'', ''e'', ''k'', ''o''] [Inr (1, 1, 0, [(''pod-failure'', 3)])] metricsRegistered
     = Inr (after [''u'', ''e'', ''k'', ''o''] (1, 1, 0) (''pod-failure'', 3) metricsRegistered) \<and>
   contains
     (registeredResultMetrics
        (after [''u'', ''e'', ''k'', ''o''] (1, 1, 0) (''pod-failure'', 3) metricsRegistered))
     (sanitizedExpName ''pod-failure'') \<and>
   (\<exists>s'. loopBody [''u'', ''e'', ''k'', ''o''] (2, 1, 1) (''pod-failure'', 2)
            (after [''u'', ''e'', ''k'', ''o''] (1, 1, 0) (''pod-failure'', 3) metricsRegistered)
          = Inr s' \<and>
         registeredResultMetrics s' = [''pod_failure''] \<and>
         exposed s' ''c_exp_pod_failure'' [''u'', ''e'', ''k'', ''o''] = Some 2)"
proof -
  have c: "contains
     (registeredResultMetrics
        (after [''u'', ''e'', ''k'', ''o''] (1, 1, 0) (''pod-failure'', 3) metricsRegistered))
     (sanitizedExpName ''pod-failure'')"
    unfolding first_poll_names by (simp add: sanitizedExpName_def)
  have "\<exists>s'. loopBody [''u'', ''e'', ''k'', ''o''] (2, 1, 1) (''pod-failure'', 2)
            (after [''u'', ''e'', ''k'', ''o''] (1, 1, 0) (''pod-failure'', 3) metricsRegistered)
          = Inr s' \<and>
         registeredResultMetrics s' = registeredResultMetrics
            (after [''u'', ''e'', ''k'', ''o''] (1, 1, 0) (''pod-failure'', 3) metricsRegistered) \<and>
         exposed s' (fqExp (sanitizedExpName ''pod-failure'')) [''u'', ''e'', ''k'', ''o''] = Some 2"
    using first_poll_example c
      recorded_name_is_unregistered_then_registered
        [of "[''u'', ''e'', ''k'', ''o'']" "[Inr (1, 1, 0, [(''pod-failure'', 3)])]"
            "after [''u'', ''e'', ''k'', ''o''] (1, 1, 0) (''pod-failure'', 3) metricsRegistered"
            "''pod-failure''" "(2, 1, 1)" 2]
    by blast
  then have "\<exists>s'. loopBody [''u'', ''e'', ''k'', ''o''] (2, 1, 1) (''pod-failure'', 2)
            (after [''u'', ''e'', ''k'', ''o''] (1, 1, 0) (''pod-failure'', 3) metricsRegistered)
          = Inr s' \<and>
         registeredResultMetrics s' = [''pod_failure''] \<and>
         exposed s' ''c_exp_pod_failure'' [''u'', ''e'', ''k'', ''o''] = Some 2"
    unfolding first_poll_names by (simp add: sanitizedExpName_def fqExp_eq)
  with first_poll_example c show ?thesis by blast
qed

section \<open>A pass over a map\<close>

lemma seriesOf_not_fixed:
  "map_of (rev (map seriesOf expMap)) fqExperimentCount = None"
  "map_of (rev (map seriesOf expMap)) fqPassedExperiments = None"
  "map_of (rev (map seriesOf expMap)) fqFailedExperiments = None"
  by (auto simp: map_of_eq_None_iff seriesOf_def fqExp_not_fixed image_iff)

lemma fold_exposedStep:
  "fold (exposedStep lvs counts) expMap V = exposedAfter lvs counts expMap V"
proof (induction expMap rule: rev_induct)
  case Nil
  show ?case by (simp add: exposedAfter_def)
next
  case (snoc entry expMap)
  have "exposedStep lvs counts entry (exposedAfter lvs counts expMap V) n l =
        exposedAfter lvs counts (expMap @ [entry]) V n l" for n l
  proof (cases "n = fqExp (sanitizedExpName (fst entry))")
    case True
    then show ?thesis by (simp add: exposedStep_def exposedAfter_def seriesOf_def)
  next
    case False
    then show ?thesis
      by (auto simp: exposedStep_def exposedAfter_def seriesOf_def[of entry] seriesOf_not_fixed
          split: option.splits)
  qed
  then have "exposedStep lvs counts entry (exposedAfter lvs counts expMap V) =
        exposedAfter lvs counts (expMap @ [entry]) V"
    by (intro ext)
  moreover have "fold (exposedStep lvs counts) (expMap @ [entry]) V =
        exposedStep lvs counts entry (exposedAfter lvs counts expMap V)"
    by (simp add: snoc)
  ultimately show ?case by simp
qed

lemma exposedAfter_idem:
  "exposedAfter lvs counts expMap (exposedAfter lvs counts expMap V) = exposedAfter lvs counts expMap V"
  by (auto simp: exposedAfter_def fun_eq_iff split: option.splits)

lemma exposedAfter_perm:
  assumes "mset expMap2 = mset expMap1" and "distinct (map (sanitizedExpName \<circ> fst) expMap1)"
  shows "exposedAfter lvs counts expMap2 V = exposedAfter lvs counts expMap1 V"
proof -
  have k: "map (fst \<circ> seriesOf) expMap = map fqExp (map (sanitizedExpName \<circ> fst) expMap)"
    for expMap by (simp add: seriesOf_def comp_def)
  have d1: "distinct (map fst (rev (map seriesOf expMap1)))"
    using assms(2) by (simp add: rev_map[symmetric] k distinct_map inj_on_def fqExp_inj)
  have "mset (map (fst \<circ> seriesOf) expMap2) = mset (map (fst \<circ> seriesOf) expMap1)"
    using assms(1) by (metis mset_map)
  then have "distinct (map (fst \<circ> seriesOf) expMap2) = distinct (map (fst \<circ> seriesOf) expMap1)"
    by (rule mset_eq_imp_distinct_iff)
  then have d2: "distinct (map fst (rev (map seriesOf expMap2)))"
    using d1 by (simp add: rev_map[symmetric])
  have "set expMap2 = set expMap1" using assms(1) by (rule mset_eq_setD)
  then have "set (rev (map seriesOf expMap2)) = set (rev (map seriesOf expMap1))" by simp
  then have m: "map_of (rev (map seriesOf expMap2)) = map_of (rev (map seriesOf expMap1))"
    using map_of_inject_set [OF d2 d1] by simp
  have "expMap2 = [] \<longleftrightarrow> expMap1 = []" using assms(1) by (metis mset_zero_iff)
  then show ?thesis by (auto simp: exposedAfter_def m fun_eq_iff split: option.splits)
qed


lemma pass_exposed:
  assumes "loopInv s" and "reconcile lvs counts expMap s = Inr s'"
  shows "exposed s' = exposedAfter lvs counts expMap (exposed s)"
proof -
  have "list_all validEntry expMap" and "s' = fold (after lvs counts) expMap s"
    using reconcile_Inr [OF assms] by blast+
  then show ?thesis
    using fold_after_exposed [OF assms(1)] by (simp add: fold_exposedStep)
qed

lemma example_valid:
  "list_all validEntry [(''pod-failure'', 3), (''container-kill'', 1)]"
  "list_all validEntry [(''container-kill'', 1), (''pod-failure'', 3)]"
  "\<not> list_all validEntry [('''', 1)]"
  by (simp_all add: validEntry_def sanitizedExpName_def fqExp_eq isNameStart_def isDigit_def)

lemma example_pass:
  "reconcile [''u'', ''e'', ''k'', ''o''] (2, 1, 0) [(''pod-failure'', 3), (''container-kill'', 1)]
     metricsRegistered =
   Inr (fold (after [''u'', ''e'', ''k'', ''o''] (2, 1, 0))
          [(''pod-failure'', 3), (''container-kill'', 1)] metricsRegistered)"
  using reconcile_valid [OF loopInv_metricsRegistered example_valid(1) disjI2 [OF example_labels]]
  by blast




text \<open>
  Claim C6: in a state reached by the poll loop, after a pass over a map that has not
  ended the process, a second pass over the same entries, in any order and with any counts,
  does not end the process either and leaves the list of registered names and the set of
  names registered in the registry as they were after the first.
\<close>

theorem same_map_same_registered_series:
  assumes "exporter lvs polls metricsRegistered = Inr s"
    and "reconcile lvs counts expMap s = Inr s1"
    and "set expMap2 = set expMap"
  shows "\<exists>s2. reconcile lvs counts2 expMap2 s1 = Inr s2 \<and>
              registeredResultMetrics s2 = registeredResultMetrics s1 \<and>
              dom (registry s2) = dom (registry s1)"
proof -
  have i: "loopInv s" using reachable_inv [OF assms(1)] .
  have v: "list_all validEntry expMap" and s1: "s1 = fold (after lvs counts) expMap s"
    and i1: "loopInv s1" and l: "expMap = [] \<or> validLabelValues lvs"
    using reconcile_Inr [OF i assms(2)] by blast+
  have v2: "list_all validEntry expMap2"
    using v assms(3) by (simp add: list_all_iff)
  have l2: "expMap2 = [] \<or> validLabelValues lvs"
    using l assms(3) by auto
  let ?s2 = "fold (after lvs counts2) expMap2 s1"
  have ok: "reconcile lvs counts2 expMap2 s1 = Inr ?s2"
    using reconcile_valid [OF i1 v2 l2] by blast
  have sub: "(sanitizedExpName \<circ> fst) ` set expMap2 \<subseteq> set (registeredResultMetrics s1)"
    using assms(3) by (auto simp: s1 fold_after_names)
  have n: "registeredResultMetrics ?s2 = registeredResultMetrics s1"
    using fold_after_names_same [OF sub] .
  have "(fqExp \<circ> sanitizedExpName \<circ> fst) ` set expMap2 \<subseteq> dom (registry s1)"
    using assms(3) by (auto simp: s1 fold_after_dom)
  then have d: "dom (registry ?s2) = dom (registry s1)"
    by (auto simp: fold_after_dom)
  from ok n d show ?thesis by blast
qed

theorem same_map_same_registered_series_witness:
  "exporter [''u'', ''e'', ''k'', ''o''] [] metricsRegistered = Inr metricsRegistered \<and>
   reconcile [''u'', ''e'', ''k'', ''o''] (2, 1, 0) [(''pod-failure'', 3), (''container-kill'', 1)]
     metricsRegistered =
   Inr (fold (after [''u'', ''e'', ''k'', ''o''] (2, 1, 0))
          [(''pod-failure'', 3), (''container-kill'', 1)] metricsRegistered) \<and>
   set [(''container-kill'', 1::real), (''pod-failure'', 3)]
     = set [(''pod-failure'', 3), (''container-kill'', 1)] \<and>
   (\<exists>s2. reconcile [''u'', ''e'', ''k'', ''o''] (2, 1, 0)
            [(''container-kill'', 1), (''pod-failure'', 3)]
            (fold (after [''u'', ''e'', ''k'', ''o''] (2, 1, 0))
               [(''pod-failure'', 3), (''container-kill'', 1)] metricsRegistered) = Inr s2 \<and>
         registeredResultMetrics s2 =
           registeredResultMetrics (fold (after [''u'', ''e'', ''k'', ''o''] (2, 1, 0))
               [(''pod-failure'', 3), (''container-kill'', 1)] metricsRegistered) \<and>
         dom (registry s2) =
           dom (registry (fold (after [''u'', ''e'', ''k'', ''o''] (2, 1, 0))
               [(''pod-failure'', 3), (''container-kill'', 1)] metricsRegistered)))"
proof -
  have r: "exporter [''u'', ''e'', ''k'', ''o''] [] metricsRegistered = Inr metricsRegistered"
    by simp
  have e: "set [(''container-kill'', 1::real), (''pod-failure'', 3)]
     = set [(''pod-failure'', 3), (''container-kill'', 1)]"
    by auto
  show ?thesis
    using r example_pass e same_map_same_registered_series [OF r example_pass e, of "(2, 1, 0)"]
    by blast
qed

text \<open>
  Claim C7, as it is stated, fails: the names \<^verbatim>\<open>a-b\<close> and \<^verbatim>\<open>a_b\<close> have the same series,
  the entry iterated last gives its value, and the order of iteration over a Go map may
  differ from one poll to the next.
\<close>

theorem colliding_names_counterexample:
  "exposed (stateOf (exporter [''u'', ''e'', ''k'', ''o'']
      [Inr (2, 1, 1, [(''a-b'', 1), (''a_b'', 2)])] metricsRegistered))
      ''c_exp_a_b'' [''u'', ''e'', ''k'', ''o''] = Some 2 \<and>
   exposed (stateOf (exporter [''u'', ''e'', ''k'', ''o'']
      [Inr (2, 1, 1, [(''a-b'', 1), (''a_b'', 2)]), Inr (2, 1, 1, [(''a_b'', 2), (''a-b'', 1)])]
      metricsRegistered))
      ''c_exp_a_b'' [''u'', ''e'', ''k'', ''o''] = Some 1"
  by (simp add: run_defs exposed_def)

text \<open>
  Claim C7, amended: in a state reached by the poll loop, after a pass over a poll result
  that has not ended the process, a second pass over the same result leaves every exposed
  value, of every series and for all label values, as it was after the first, provided
  the map is iterated in the same order or its names have pairwise distinct sanitized
  names (in whatever order it is iterated then).
\<close>

theorem repeated_poll_keeps_exposed_values:
  assumes "exporter lvs polls metricsRegistered = Inr s"
    and "reconcile lvs counts expMap s = Inr s1"
    and "expMap2 = expMap \<or>
         (mset expMap2 = mset expMap \<and> distinct (map (sanitizedExpName \<circ> fst) expMap))"
  shows "\<exists>s2. reconcile lvs counts expMap2 s1 = Inr s2 \<and> exposed s2 = exposed s1"
proof -
  have i: "loopInv s" using reachable_inv [OF assms(1)] .
  have v: "list_all validEntry expMap" and i1: "loopInv s1"
    and l: "expMap = [] \<or> validLabelValues lvs"
    using reconcile_Inr [OF i assms(2)] by blast+
  have eq: "set expMap2 = set expMap" using assms(3) by (auto dest: mset_eq_setD)
  then have v2: "list_all validEntry expMap2"
    using v by (simp add: list_all_iff)
  have l2: "expMap2 = [] \<or> validLabelValues lvs"
    using l eq by auto
  let ?s2 = "fold (after lvs counts) expMap2 s1"
  have ok: "reconcile lvs counts expMap2 s1 = Inr ?s2"
    using reconcile_valid [OF i1 v2 l2] by blast
  have e1: "exposed s1 = exposedAfter lvs counts expMap (exposed s)"
    using pass_exposed [OF i assms(2)] .
  have "exposed ?s2 = exposedAfter lvs counts expMap2 (exposed s1)"
    using pass_exposed [OF i1 ok] .
  also have "\<dots> = exposedAfter lvs counts expMap (exposed s1)"
    using assms(3) exposedAfter_perm by blast
  also have "\<dots> = exposed s1"
    by (simp add: e1 exposedAfter_idem)
  finally show ?thesis using ok by blast
qed

theorem repeated_poll_keeps_exposed_values_witness:
  "exporter [''u'', ''e'', ''k'', ''o''] [] metricsRegistered = Inr metricsRegistered \<and>
   reconcile [''u'', ''e'', ''k'', ''o''] (2, 1, 0) [(''pod-failure'', 3), (''container-kill'', 1)]
     metricsRegistered =
   Inr (fold (after [''u'', ''e'', ''k'', ''o''] (2, 1, 0))
          [(''pod-failure'', 3), (''container-kill'', 1)] metricsRegistered) \<and>
   mset [(''container-kill'', 1::real), (''pod-failure'', 3)]
     = mset [(''pod-failure'', 3), (''container-kill'', 1)] \<and>
   distinct (map (sanitizedExpName \<circ> fst) [(''pod-failure'', 3::real), (''container-kill'', 1)]) \<and>
   (\<exists>s2. reconcile [''u'', ''e'', ''k'', ''o''] (2, 1, 0)
            [(''container-kill'', 1), (''pod-failure'', 3)]
            (fold (after [''u'', ''e'', ''k'', ''o''] (2, 1, 0))
               [(''pod-failure'', 3), (''container-kill'', 1)] metricsRegistered) = Inr s2 \<and>
         exposed s2 =
           exposed (fold (after [''u'', ''e'', ''k'', ''o''] (2, 1, 0))
               [(''pod-failure'', 3), (''container-kill'', 1)] metricsRegistered))"
proof -
  have r: "exporter [''u'', ''e'', ''k'', ''o''] [] metricsRegistered = Inr metricsRegistered"
    by simp
  have m: "mset [(''container-kill'', 1::real), (''pod-failure'', 3)]
     = mset [(''pod-failure'', 3), (''container-kill'', 1)]"
    by (simp add: add.commute)
  have d: "distinct (map (sanitizedExpName \<circ> fst)
             [(''pod-failure'', 3::real), (''container-kill'', 1)])"
    by (simp add: sanitizedExpName_def)
  have h: "[(''container-kill'', 1::real), (''pod-failure'', 3)]
             = [(''pod-failure'', 3), (''container-kill'', 1)] \<or>
           (mset [(''container-kill'', 1::real), (''pod-failure'', 3)]
              = mset [(''pod-failure'', 3), (''container-kill'', 1)] \<and>
            distinct (map (sanitizedExpName \<circ> fst)
              [(''pod-failure'', 3::real), (''container-kill'', 1)]))"
    using m d by blast
  show ?thesis
    using r example_pass m d repeated_poll_keeps_exposed_values [OF r example_pass h]
    by blast
qed

section \<open>The fixed series\<close>

text \<open>
  After a pass over a map that is not empty, the fixed series show the counts of the poll.
\<close>

lemma fixed_series_after_pass:
  assumes "exporter lvs polls metricsRegistered = Inr s"
    and "reconcile lvs (expTotal, passTotal, failTotal) expMap s = Inr s'"
    and "expMap \<noteq> []"
  shows "exposed s' fqExperimentCount lvs = Some expTotal \<and>
         exposed s' fqPassedExperiments lvs = Some passTotal \<and>
         exposed s' fqFailedExperiments lvs = Some failTotal"
  using assms(3) pass_exposed [OF reachable_inv [OF assms(1)] assms(2)]
  by (simp add: exposedAfter_def seriesOf_not_fixed fixed_distinct)

text \<open>
  Claim C4 at the empty map: the three \<^verbatim>\<open>Set\<close> calls are inside the loop over the map,
  so a poll with no experiment sets nothing. On the first poll the fixed series have no
  value for the label values; on a later poll they keep the counts of an earlier one.
\<close>

theorem empty_map_leaves_fixed_series_unset:
  "exposed (stateOf (exporter [''u'', ''e'', ''k'', ''o''] [Inr (0, 0, 0, [])] metricsRegistered))
      fqExperimentCount [''u'', ''e'', ''k'', ''o''] = None \<and>
   exposed (stateOf (exporter [''u'', ''e'', ''k'', ''o''] [Inr (0, 0, 0, [])] metricsRegistered))
      fqPassedExperiments [''u'', ''e'', ''k'', ''o''] = None \<and>
   exposed (stateOf (exporter [''u'', ''e'', ''k'', ''o''] [Inr (0, 0, 0, [])] metricsRegistered))
      fqFailedExperiments [''u'', ''e'', ''k'', ''o''] = None \<and>
   exposed (stateOf (exporter [''u'', ''e'', ''k'', ''o'']
      [Inr (3, 1, 1, [(''pod-failure'', 3)]), Inr (0, 0, 0, [])] metricsRegistered))
      fqExperimentCount [''u'', ''e'', ''k'', ''o''] = Some 3"
  by (simp add: run_defs exposed_def)

section \<open>Startup\<close>

lemma main_starts_exporter:
  assumes "Getenv (environ st) ''CHAOSENGINE'' \<noteq> []" and "Getenv (environ st) ''APP_UUID'' \<noteq> []"
    and "flagParse st = Some kubeconfig"
    and "(if kubeconfig = [] then InClusterConfig st else BuildConfigFromFlags st kubeconfig)
          = Inr config"
  shows "snd (mainGo st) =
     Inr (\<lparr>argCfg = config, argChaosEngine = Getenv (environ st) ''CHAOSENGINE'',
           argAppUUID = Getenv (environ st) ''APP_UUID'',
           argAppNS = getNamespaceEnv (environ st) ''APP_NAMESPACE'' ''default'',
           argKubernetesVersion = fst (GetKubernetesVersion st config),
           argOpenebsVersion = fst (GetOpenebsVersion st config
             (getOpenebsEnv (environ st) ''OPENEBS_NAMESPACE'' ''openebs''))\<rparr>,
          metricsRegistered)"
  using assms
  by (auto simp: mainGo_def Let_def registerFixed_processStart metricsRegistered_def
      split: prod.splits)

text \<open>
  Claim C10, as it is stated, fails: the cluster configuration is loaded before the
  variables are checked, and when loading it fails the process panics with that error,
  whatever the variables are.
\<close>

theorem missing_env_counterexample:
  "Getenv (environ startupWithoutCluster) ''CHAOSENGINE'' = [] \<and>
   mainGo startupWithoutCluster =
     ([''using the in-cluster config''],
      Inl (Panic ''unable to load in-cluster configuration'', processStart))"
  by (simp add: startupWithoutCluster_def startupWithoutEnv_def mainGo_def Getenv_def
      getNamespaceEnv_def getOpenebsEnv_def)

text \<open>
  Claim C10, amended: when CHAOSENGINE or APP_UUID is empty, \<^verbatim>\<open>main\<close> ends the process
  before anything is registered, before \<^verbatim>\<open>exporter\<close> is started and before the endpoint
  is served: by the exit of \<^verbatim>\<open>flag.Parse\<close>, by the panic on a configuration that cannot
  be loaded, or by the fatal log line; and it is the fatal log line whenever the command
  line is accepted and the configuration is loaded.
\<close>

theorem missing_env_exits_before_registering:
  "Getenv (environ st) ''CHAOSENGINE'' = [] \<or> Getenv (environ st) ''APP_UUID'' = [] \<Longrightarrow>
     (\<exists>log e. mainGo st = (log, Inl (e, processStart)) \<and>
        (e = FlagExit \<or> (\<exists>err. e = Panic err) \<or>
         e = Fatal ''ERROR: please specify correct APP_UUID & CHAOSENGINE ENVs'')) \<and>
     (\<forall>kubeconfig config.
        flagParse st = Some kubeconfig \<longrightarrow>
        (if kubeconfig = [] then InClusterConfig st else BuildConfigFromFlags st kubeconfig)
          = Inr config \<longrightarrow>
        snd (mainGo st) =
          Inl (Fatal ''ERROR: please specify correct APP_UUID & CHAOSENGINE ENVs'', processStart)) \<and>
     registry processStart = Map.empty \<and> calls processStart = []"
  by (auto simp: mainGo_def Let_def processStart_def noObjects_def NewGaugeVec_def
      split: option.splits sum.splits)

theorem missing_env_exits_before_registering_witness:
  "Getenv (environ startupWithoutEnv) ''CHAOSENGINE'' = [] \<and>
   flagParse startupWithoutEnv = Some [] \<and>
   InClusterConfig startupWithoutEnv = Inr () \<and>
   mainGo startupWithoutEnv =
     ([''using the in-cluster config''],
      Inl (Fatal ''ERROR: please specify correct APP_UUID & CHAOSENGINE ENVs'', processStart))"
proof -
  have e: "Getenv (environ startupWithoutEnv) ''CHAOSENGINE'' = []"
    by (simp add: startupWithoutEnv_def Getenv_def)
  have f: "flagParse startupWithoutEnv = Some []" "InClusterConfig startupWithoutEnv = Inr ()"
    by (simp_all add: startupWithoutEnv_def)
  have "snd (mainGo startupWithoutEnv) =
          Inl (Fatal ''ERROR: please specify correct APP_UUID & CHAOSENGINE ENVs'', processStart)"
    using missing_env_exits_before_registering [of startupWithoutEnv] e f by simp
  moreover have "fst (mainGo startupWithoutEnv) = [''using the in-cluster config'']"
    by (simp add: mainGo_def Let_def f e)
  ultimately show ?thesis using e f by (simp add: prod_eq_iff)
qed

end
